theory Spec2Isabelle
  imports Main "HOL-Library.Word"
begin

unbundle bit_operations_syntax

section \<open>The LS-8 emulator of \<^verbatim>\<open>ls8/cpu.py\<close>\<close>

text \<open>
  The emulator is one Python class, \<^verbatim>\<open>CPU\<close>. Its fields are Python lists of unbounded
  integers and plain integers, so the model uses \<^typ>\<open>int\<close> everywhere: nothing in the
  source reduces a value modulo 256. Every exception the source can raise is a value of
  \<open>error\<close>, returned together with the state at the moment of the raise.
\<close>

subsection \<open>Opcodes (module constants, lines 4 to 16)\<close>

definition ADD :: int where "ADD = 160"   \<comment> \<open>\<^verbatim>\<open>0b10100000\<close>\<close>
definition LDI :: int where "LDI = 130"   \<comment> \<open>\<^verbatim>\<open>0b10000010\<close>\<close>
definition PRN :: int where "PRN = 71"    \<comment> \<open>\<^verbatim>\<open>0b01000111\<close>\<close>
definition HLT :: int where "HLT = 1"     \<comment> \<open>\<^verbatim>\<open>0b00000001\<close>\<close>
definition MUL :: int where "MUL = 162"   \<comment> \<open>\<^verbatim>\<open>0b10100010\<close>\<close>
definition PUSH :: int where "PUSH = 69"  \<comment> \<open>\<^verbatim>\<open>0b01000101\<close>\<close>
definition POP :: int where "POP = 70"    \<comment> \<open>\<^verbatim>\<open>0b01000110\<close>\<close>
definition CALL :: int where "CALL = 80"  \<comment> \<open>\<^verbatim>\<open>0b01010000\<close>\<close>
definition RET :: int where "RET = 17"    \<comment> \<open>\<^verbatim>\<open>0b00010001\<close>\<close>
definition CMP :: int where "CMP = 167"   \<comment> \<open>\<^verbatim>\<open>0b10100111\<close>\<close>
definition JMP :: int where "JMP = 84"    \<comment> \<open>\<^verbatim>\<open>0b01010100\<close>\<close>
definition JEQ :: int where "JEQ = 85"    \<comment> \<open>\<^verbatim>\<open>0b01010101\<close>\<close>
definition JNE :: int where "JNE = 86"    \<comment> \<open>\<^verbatim>\<open>0b01010110\<close>\<close>

subsection \<open>State and exceptions\<close>

text \<open>
  \<open>stdout\<close> collects the values \<^verbatim>\<open>PRN\<close> prints (each as the line \<^verbatim>\<open>Print: v\<close>), oldest
  first. \<open>ir\<close> is \<^verbatim>\<open>None\<close> until the first fetch.
\<close>

record cpu =
  ram :: "int list"
  reg :: "int list"
  pc :: int
  ir :: "int option"
  fl :: int
  stdout :: "int list"

text \<open>
  The exceptions of the source: \<^verbatim>\<open>IndexError\<close> from a list subscript out of range,
  \<^verbatim>\<open>KeyError\<close> from the branch table (its argument is the missing key), \<^verbatim>\<open>SystemExit\<close>
  from \<^verbatim>\<open>quit()\<close>, \<^verbatim>\<open>ValueError\<close> from \<^verbatim>\<open>int(s, 2)\<close>, \<^verbatim>\<open>TypeError\<close> from a call with the wrong
  number of arguments or from arithmetic on \<^verbatim>\<open>None\<close>, and the plain \<^verbatim>\<open>Exception\<close> of \<^verbatim>\<open>alu\<close>
  with its message.
\<close>

datatype error =
    IndexError
  | KeyError int
  | SystemExit
  | ValueError
  | TypeError
  | Exception string

text \<open>The class name of an exception and the integers among its arguments.\<close>

fun error_name :: "error \<Rightarrow> string" where
  "error_name IndexError = ''IndexError''"
| "error_name (KeyError k) = ''KeyError''"
| "error_name SystemExit = ''SystemExit''"
| "error_name ValueError = ''ValueError''"
| "error_name TypeError = ''TypeError''"
| "error_name (Exception msg) = ''Exception''"

fun error_int_args :: "error \<Rightarrow> int list" where
  "error_int_args (KeyError k) = [k]"
| "error_int_args e = []"

type_synonym result = "(error \<times> cpu) + cpu"

text \<open>The state a computation ends in, and the exception it ended with, if any.\<close>

fun final_state :: "result \<Rightarrow> cpu" where
  "final_state (Inl (e, st)) = st"
| "final_state (Inr st) = st"

fun raised :: "result \<Rightarrow> error option" where
  "raised (Inl (e, st)) = Some e"
| "raised (Inr st) = None"

text \<open>One handler after another: the second runs only if the first returned.\<close>

fun and_then :: "result \<Rightarrow> (cpu \<Rightarrow> result) \<Rightarrow> result" where
  "and_then (Inl e) f = Inl e"
| "and_then (Inr st) f = f st"

subsection \<open>Python list subscripts\<close>

text \<open>
  \<^verbatim>\<open>xs[i]\<close> accepts \<open>0 \<le> i < len(xs)\<close> and, counting from the end, \<open>-len(xs) \<le> i < 0\<close>;
  any other index raises \<^verbatim>\<open>IndexError\<close>. \<open>list_index\<close> gives the position a subscript
  denotes, if any.
\<close>

definition list_index :: "'a list \<Rightarrow> int \<Rightarrow> nat option" where
  "list_index xs i =
     (if 0 \<le> i \<and> i < int (length xs) then Some (nat i)
      else if i < 0 \<and> - int (length xs) \<le> i then Some (nat (int (length xs) + i))
      else None)"

definition getitem :: "'a list \<Rightarrow> int \<Rightarrow> 'a option" where
  "getitem xs i = map_option (\<lambda>k. xs ! k) (list_index xs i)"

definition setitem :: "'a list \<Rightarrow> int \<Rightarrow> 'a \<Rightarrow> 'a list option" where
  "setitem xs i v = map_option (\<lambda>k. xs[k := v]) (list_index xs i)"

subsection \<open>Construction (lines 21 to 33)\<close>

definition CPU_init :: cpu where
  "CPU_init =
     \<lparr>ram = replicate 256 0, reg = (replicate 8 0)[7 := 244], pc = 0, ir = None, fl = 0,
      stdout = []\<rparr>"

text \<open>The lists never change length: every state the program builds satisfies this.\<close>

definition wf_cpu :: "cpu \<Rightarrow> bool" where
  "wf_cpu st \<longleftrightarrow> length (ram st) = 256 \<and> length (reg st) = 8"

subsection \<open>Memory access and the stack pointer property\<close>

definition ram_read :: "int \<Rightarrow> cpu \<Rightarrow> (error \<times> cpu) + int" where
  "ram_read address st =
     (case getitem (ram st) address of
        None \<Rightarrow> Inl (IndexError, st)
      | Some v \<Rightarrow> Inr v)"

definition ram_write :: "int \<Rightarrow> int \<Rightarrow> cpu \<Rightarrow> result" where
  "ram_write val address st =
     (case setitem (ram st) address val of
        None \<Rightarrow> Inl (IndexError, st)
      | Some m \<Rightarrow> Inr (st\<lparr>ram := m\<rparr>))"

text \<open>
  \<^verbatim>\<open>stack_pointer\<close> is a property over \<^verbatim>\<open>reg[7]\<close>; the register file always has 8 slots, so
  the subscript 7 itself never raises.
\<close>

definition stack_pointer :: "cpu \<Rightarrow> int" where
  "stack_pointer st = reg st ! 7"

definition set_stack_pointer :: "int \<Rightarrow> cpu \<Rightarrow> cpu" where
  "set_stack_pointer v st = st\<lparr>reg := (reg st)[7 := v]\<rparr>"

subsection \<open>The ALU (lines 85 to 101)\<close>

definition alu :: "string \<Rightarrow> int \<Rightarrow> int \<Rightarrow> cpu \<Rightarrow> result" where
  "alu op reg_a reg_b st =
     (if op = ''ADD'' then
        (case getitem (reg st) reg_a of
           None \<Rightarrow> Inl (IndexError, st)
         | Some x \<Rightarrow>
             (case getitem (reg st) reg_b of
                None \<Rightarrow> Inl (IndexError, st)
              | Some y \<Rightarrow>
                  (case setitem (reg st) reg_a (x + y) of
                     None \<Rightarrow> Inl (IndexError, st)
                   | Some r \<Rightarrow> Inr (st\<lparr>reg := r\<rparr>))))
      else if op = ''MUL'' then
        (case getitem (reg st) reg_a of
           None \<Rightarrow> Inl (IndexError, st)
         | Some x \<Rightarrow>
             (case getitem (reg st) reg_b of
                None \<Rightarrow> Inl (IndexError, st)
              | Some y \<Rightarrow>
                  (case setitem (reg st) reg_a (x * y) of
                     None \<Rightarrow> Inl (IndexError, st)
                   | Some r \<Rightarrow> Inr (st\<lparr>reg := r\<rparr>))))
      else if op = ''CMP'' then
        (case getitem (reg st) reg_a of
           None \<Rightarrow> Inl (IndexError, st)
         | Some x \<Rightarrow>
             (case getitem (reg st) reg_b of
                None \<Rightarrow> Inl (IndexError, st)
              | Some y \<Rightarrow>
                  if x < y then Inr (st\<lparr>fl := 4\<rparr>)
                  else if x > y then Inr (st\<lparr>fl := 2\<rparr>)
                  else if x = y then Inr (st\<lparr>fl := 1\<rparr>)
                  else Inr st))
      else Inl (Exception ''Unsupported ALU operation'', st))"

subsection \<open>Instruction handlers (lines 131 to 183)\<close>

definition CPU_LDI :: "cpu \<Rightarrow> result" where
  "CPU_LDI st =
     (case getitem (ram st) (pc st + 1) of
        None \<Rightarrow> Inl (IndexError, st)
      | Some register_address \<Rightarrow>
          (case getitem (ram st) (pc st + 2) of
             None \<Rightarrow> Inl (IndexError, st)
           | Some register_value \<Rightarrow>
               (case setitem (reg st) register_address register_value of
                  None \<Rightarrow> Inl (IndexError, st)
                | Some r \<Rightarrow> Inr (st\<lparr>reg := r\<rparr>))))"

definition CPU_PRN :: "cpu \<Rightarrow> result" where
  "CPU_PRN st =
     (case ram_read (pc st + 1) st of
        Inl e \<Rightarrow> Inl e
      | Inr k \<Rightarrow>
          (case getitem (reg st) k of
             None \<Rightarrow> Inl (IndexError, st)
           | Some v \<Rightarrow> Inr (st\<lparr>stdout := stdout st @ [v]\<rparr>)))"

definition CPU_HLT :: "cpu \<Rightarrow> result" where
  "CPU_HLT st = Inl (SystemExit, st)"

text \<open>
  In an assignment Python evaluates the right-hand side first, then stores: in \<^verbatim>\<open>PUSH\<close> and
  \<^verbatim>\<open>CALL\<close> the stack pointer is already decremented when either subscript raises.
\<close>

definition CPU_PUSH :: "cpu \<Rightarrow> result" where
  "CPU_PUSH st =
     (let st1 = set_stack_pointer (stack_pointer st - 1) st in
      case getitem (ram st1) (pc st1 + 1) of
        None \<Rightarrow> Inl (IndexError, st1)
      | Some v \<Rightarrow>
          (case setitem (ram st1) (stack_pointer st1) v of
             None \<Rightarrow> Inl (IndexError, st1)
           | Some m \<Rightarrow> Inr (st1\<lparr>ram := m\<rparr>)))"

definition CPU_POP :: "cpu \<Rightarrow> result" where
  "CPU_POP st =
     (case getitem (ram st) (stack_pointer st) of
        None \<Rightarrow> Inl (IndexError, st)
      | Some v \<Rightarrow>
          (case setitem (ram st) (pc st + 1) v of
             None \<Rightarrow> Inl (IndexError, st)
           | Some m \<Rightarrow>
               (let st1 = st\<lparr>ram := m\<rparr>
                in Inr (set_stack_pointer (stack_pointer st1 + 1) st1))))"

definition CPU_CALL :: "cpu \<Rightarrow> result" where
  "CPU_CALL st =
     (let st1 = set_stack_pointer (stack_pointer st - 1) st in
      case getitem (ram st1) (pc st1 + 1) of
        None \<Rightarrow> Inl (IndexError, st1)
      | Some v \<Rightarrow>
          (case setitem (ram st1) (stack_pointer st1) v of
             None \<Rightarrow> Inl (IndexError, st1)
           | Some m \<Rightarrow>
               (let st2 = st1\<lparr>ram := m\<rparr> in
                case getitem (reg st2) (pc st2 + 1) of
                  None \<Rightarrow> Inl (IndexError, st2)
                | Some target \<Rightarrow> Inr (st2\<lparr>pc := target\<rparr>))))"

definition CPU_RET :: "cpu \<Rightarrow> result" where
  "CPU_RET st =
     (case getitem (ram st) (stack_pointer st) of
        None \<Rightarrow> Inl (IndexError, st)
      | Some target \<Rightarrow>
          (let st1 = st\<lparr>pc := target\<rparr>
           in Inr (set_stack_pointer (stack_pointer st1 + 1) st1)))"

definition CPU_JMP :: "cpu \<Rightarrow> result" where
  "CPU_JMP st =
     (case getitem (ram st) (pc st + 1) of
        None \<Rightarrow> Inl (IndexError, st)
      | Some k \<Rightarrow>
          (case getitem (reg st) k of
             None \<Rightarrow> Inl (IndexError, st)
           | Some target \<Rightarrow> Inr (st\<lparr>pc := target\<rparr>)))"

text \<open>
  \<^verbatim>\<open>JNE\<close> tests \<^verbatim>\<open>self.fl is not 1\<close>. CPython keeps one object for each integer from -5
  to 256, so for integers the identity test against the literal 1 is the inequality test.
\<close>

definition CPU_JEQ :: "cpu \<Rightarrow> result" where
  "CPU_JEQ st = (if fl st = 1 then CPU_JMP st else Inr (st\<lparr>pc := pc st + 2\<rparr>))"

definition CPU_JNE :: "cpu \<Rightarrow> result" where
  "CPU_JNE st = (if fl st \<noteq> 1 then CPU_JMP st else Inr (st\<lparr>pc := pc st + 2\<rparr>))"

subsection \<open>The branch table (lines 36 to 50)\<close>

text \<open>
  A table entry is a bound method taking no argument or a lambda taking the two operands.
  Calling either with the other number of arguments raises \<^verbatim>\<open>TypeError\<close>.
\<close>

datatype handler =
    Method "cpu \<Rightarrow> result"
  | Lambda "int \<Rightarrow> int \<Rightarrow> cpu \<Rightarrow> result"

definition branchtable :: "int \<Rightarrow> handler option" where
  "branchtable opcode =
     (if opcode = LDI then Some (Method CPU_LDI)
      else if opcode = PRN then Some (Method CPU_PRN)
      else if opcode = HLT then Some (Method CPU_HLT)
      else if opcode = MUL then Some (Lambda (\<lambda>oper_a oper_b. alu ''MUL'' oper_a oper_b))
      else if opcode = ADD then Some (Lambda (\<lambda>oper_a oper_b. alu ''ADD'' oper_a oper_b))
      else if opcode = PUSH then Some (Method CPU_PUSH)
      else if opcode = POP then Some (Method CPU_POP)
      else if opcode = CALL then Some (Method CPU_CALL)
      else if opcode = RET then Some (Method CPU_RET)
      else if opcode = CMP then Some (Lambda (\<lambda>oper_a oper_b. alu ''CMP'' oper_a oper_b))
      else if opcode = JMP then Some (Method CPU_JMP)
      else if opcode = JEQ then Some (Method CPU_JEQ)
      else if opcode = JNE then Some (Method CPU_JNE)
      else None)"

fun call0 :: "handler \<Rightarrow> cpu \<Rightarrow> result" where
  "call0 (Method f) st = f st"
| "call0 (Lambda f) st = Inl (TypeError, st)"

fun call2 :: "handler \<Rightarrow> int \<Rightarrow> int \<Rightarrow> cpu \<Rightarrow> result" where
  "call2 (Lambda f) a b st = f a b st"
| "call2 (Method f) a b st = Inl (TypeError, st)"

subsection \<open>The run loop (lines 185 to 203)\<close>

text \<open>
  \<open>dispatch\<close> is lines 197 to 200: the lookup of \<^verbatim>\<open>self.ir\<close> in the branch table and the
  call, with two operands when bit 5 of the opcode is set.
\<close>

definition dispatch :: "int \<Rightarrow> int \<Rightarrow> int \<Rightarrow> cpu \<Rightarrow> result" where
  "dispatch opcode oper_a oper_b st =
     (let is_alu_op = drop_bit 5 (opcode AND 32) in
      case branchtable opcode of
        None \<Rightarrow> Inl (KeyError opcode, st)
      | Some h \<Rightarrow> if is_alu_op \<noteq> 0 then call2 h oper_a oper_b st else call0 h st)"

text \<open>One pass through the body of \<^verbatim>\<open>while True\<close>.\<close>

definition run_iteration :: "cpu \<Rightarrow> result" where
  "run_iteration st =
     (case ram_read (pc st) st of
        Inl e \<Rightarrow> Inl e
      | Inr opcode \<Rightarrow>
          (let st1 = st\<lparr>ir := Some opcode\<rparr>;
               sets_pc = drop_bit 4 (opcode AND 16)
           in case getitem (ram st1) (pc st1 + 1) of
                None \<Rightarrow> Inl (IndexError, st1)
              | Some oper_a \<Rightarrow>
                  (case getitem (ram st1) (pc st1 + 2) of
                     None \<Rightarrow> Inl (IndexError, st1)
                   | Some oper_b \<Rightarrow>
                       (case dispatch opcode oper_a oper_b st1 of
                          Inl e \<Rightarrow> Inl e
                        | Inr st2 \<Rightarrow>
                            if sets_pc = 0 then
                              (case ir st2 of
                                 None \<Rightarrow> Inl (TypeError, st2)
                               | Some i \<Rightarrow>
                                   Inr (st2\<lparr>pc := pc st2 + (drop_bit 6 (i AND 192) + 1)\<rparr>))
                            else Inr st2))))"

text \<open>
  The loop has no exit but an exception, so \<open>run\<close> returns the exception and the state it
  was raised in, and has no value when the program loops forever. \<open>run_steps n\<close> is the
  state after at most \<open>n\<close> iterations.
\<close>

partial_function (option) run :: "cpu \<Rightarrow> (error \<times> cpu) option" where
  "run st = (case run_iteration st of Inl e \<Rightarrow> Some e | Inr st' \<Rightarrow> run st')"

fun run_steps :: "nat \<Rightarrow> cpu \<Rightarrow> result" where
  "run_steps 0 st = Inr st"
| "run_steps (Suc n) st =
     (case run_iteration st of Inl e \<Rightarrow> Inl e | Inr st' \<Rightarrow> run_steps n st')"

subsection \<open>The loader (lines 52 to 75)\<close>

text \<open>
  A line is a Python string; the model takes its characters as code points below 256,
  where \<^verbatim>\<open>str.isdigit\<close> holds of \<^verbatim>\<open>0\<close> to \<^verbatim>\<open>9\<close> and of the superscripts U+00B2, U+00B3 and
  U+00B9. The file is given as the list of its lines.
\<close>

definition isdigit :: "char \<Rightarrow> bool" where
  "isdigit c =
     (let n = (of_char c :: nat)
      in (48 \<le> n \<and> n \<le> 57) \<or> n = 178 \<or> n = 179 \<or> n = 185)"

text \<open>
  \<^verbatim>\<open>int(s, 2)\<close> on a string made of digit characters only (the loader passes no other):
  the value when every character is \<^verbatim>\<open>0\<close> or \<^verbatim>\<open>1\<close>, \<^verbatim>\<open>ValueError\<close> otherwise.
\<close>

definition binary_digit :: "char \<Rightarrow> bool" where
  "binary_digit c \<longleftrightarrow> c = CHR ''0'' \<or> c = CHR ''1''"

definition binary_value :: "string \<Rightarrow> int" where
  "binary_value s = foldl (\<lambda>acc c. 2 * acc + (if c = CHR ''1'' then 1 else 0)) 0 s"

definition int_base2 :: "string \<Rightarrow> int option" where
  "int_base2 s =
     (if s \<noteq> [] \<and> list_all binary_digit s then Some (binary_value s) else None)"

text \<open>
  The loop over the lines. \<^verbatim>\<open>len(cleaned_line) is 8\<close> is an identity test on a small
  integer, which in CPython is the equality test.
\<close>

fun load_lines :: "string list \<Rightarrow> int \<Rightarrow> cpu \<Rightarrow> (error \<times> cpu) + (cpu \<times> int)" where
  "load_lines [] address st = Inr (st, address)"
| "load_lines (line # program) address st =
     (let shortend_line = take 8 line;
          cleaned_line = filter isdigit shortend_line
      in if length cleaned_line = 8 then
           (case int_base2 cleaned_line of
              None \<Rightarrow> Inl (ValueError, st)
            | Some v \<Rightarrow>
                (case ram_write v address st of
                   Inl e \<Rightarrow> Inl e
                 | Inr st' \<Rightarrow> load_lines program (address + 1) st'))
         else load_lines program address st)"

definition load :: "string list \<Rightarrow> cpu \<Rightarrow> (error \<times> cpu) option" where
  "load program st =
     (case load_lines program 0 st of
        Inl e \<Rightarrow> Some e
      | Inr (st', address) \<Rightarrow> run st')"

text \<open>Loading into a fresh CPU and running at most \<open>n\<close> iterations.\<close>

definition load_steps :: "nat \<Rightarrow> string list \<Rightarrow> result" where
  "load_steps n program =
     (case load_lines program 0 CPU_init of
        Inl e \<Rightarrow> Inl e
      | Inr (st', address) \<Rightarrow> run_steps n st')"

subsection \<open>Notions of the specification\<close>

text \<open>
  The loader's rule in the specification's words: a line counts when its first 8
  characters, filtered to digit characters, are exactly 8 digits.
\<close>

definition cleaned :: "string \<Rightarrow> string" where
  "cleaned line = filter isdigit (take 8 line)"

definition loadable :: "string \<Rightarrow> bool" where
  "loadable line \<longleftrightarrow> length (cleaned line) = 8"

text \<open>
  The specification's \<^verbatim>\<open>UnknownInstruction\<close> report: an error of that name that carries the
  offending opcode and the program counter.
\<close>

definition reports_UnknownInstruction :: "error \<Rightarrow> int \<Rightarrow> int \<Rightarrow> bool" where
  "reports_UnknownInstruction e opcode counter \<longleftrightarrow>
     error_name e = ''UnknownInstruction'' \<and> opcode \<in> set (error_int_args e)
     \<and> counter \<in> set (error_int_args e)"

subsection \<open>Example programs and states\<close>

text \<open>
  A program file with comments and blank lines (\<^verbatim>\<open>LDI R0,5\<close>; \<^verbatim>\<open>LDI R1,9\<close>; \<^verbatim>\<open>CMP R0,R1\<close>;
  \<^verbatim>\<open>HLT\<close>), and one whose fourth byte is no instruction.
\<close>

definition example_cmp :: "string list" where
  "example_cmp =
     [''10000010 # LDI R0,5'', ''00000000'', ''00000101'',
      ''# compare the two'', [],
      ''10000010'', ''00000001'', ''00001001'',
      ''10100111 # CMP R0,R1'', ''00000000'', ''00000001'',
      ''00000001 # HLT'']"

definition example_unknown :: "string list" where
  "example_unknown = [''10000010'', ''00000000'', ''00001000'', ''11111111'']"

text \<open>A fresh CPU whose memory starts with the given bytes, and one with given registers.\<close>

definition with_ram :: "int list \<Rightarrow> cpu \<Rightarrow> cpu" where
  "with_ram bytes st = st\<lparr>ram := bytes @ drop (length bytes) (ram st)\<rparr>"

definition example_ldi :: cpu where
  "example_ldi = with_ram [LDI, 0, 8] CPU_init"

definition example_regs :: cpu where
  "example_regs = CPU_init\<lparr>reg := [250, 10, 5, 9, 0, 0, 0, 244]\<rparr>"

definition example_jeq :: cpu where
  "example_jeq = with_ram [JEQ, 2] (example_regs\<lparr>fl := 1\<rparr>)"

definition example_push :: cpu where
  "example_push = with_ram [PUSH, 7, POP, 7] example_regs"

definition example_unknown_state :: cpu where
  "example_unknown_state = with_ram [LDI, 0, 8, 255] (CPU_init\<lparr>pc := 3\<rparr>)"

definition example_hlt_at_top :: cpu where
  "example_hlt_at_top = CPU_init\<lparr>ram := replicate 255 0 @ [HLT], pc := 255\<rparr>"

section \<open>Properties\<close>

subsection \<open>Subscripts in range\<close>

lemmas opcode_defs =
  ADD_def LDI_def PRN_def HLT_def MUL_def PUSH_def POP_def CALL_def RET_def CMP_def
  JMP_def JEQ_def JNE_def

lemma list_index_in_range:
  "0 \<le> i \<Longrightarrow> i < int (length xs) \<Longrightarrow> list_index xs i = Some (nat i)"
  by (simp add: list_index_def)

lemma getitem_in_range:
  "0 \<le> i \<Longrightarrow> i < int (length xs) \<Longrightarrow> getitem xs i = Some (xs ! nat i)"
  by (simp add: getitem_def list_index_in_range)

lemma setitem_in_range:
  "0 \<le> i \<Longrightarrow> i < int (length xs) \<Longrightarrow> setitem xs i v = Some (xs[nat i := v])"
  by (simp add: setitem_def list_index_in_range)

lemma getitem_beyond: "int (length xs) \<le> i \<Longrightarrow> getitem xs i = None"
  by (simp add: getitem_def list_index_def)

lemma setitem_length: "setitem xs i v = Some ys \<Longrightarrow> length ys = length xs"
  by (auto simp: setitem_def)

subsection \<open>The bit fields of an opcode\<close>

text \<open>
  The loop tests a masked and shifted field against zero; that is the test of the masked
  value itself, for every integer.
\<close>

lemma masked_bit_zero_iff:
  "drop_bit n ((x::int) AND 2 ^ n) = 0 \<longleftrightarrow> x AND 2 ^ n = 0"
proof -
  have "drop_bit n (x AND 2 ^ n) = drop_bit n x AND 1"
    by (simp add: drop_bit_and drop_bit_exp_eq)
  also have "\<dots> = 0 \<longleftrightarrow> \<not> bit x n"
    by (simp add: and_one_eq bit_iff_odd_drop_bit even_iff_mod_2_eq_zero)
  finally show ?thesis by (simp add: and_exp_eq_0_iff_not_bit)
qed

lemma sets_pc_zero_iff: "drop_bit 4 ((x::int) AND 16) = 0 \<longleftrightarrow> x AND 16 = 0"
  using masked_bit_zero_iff [of 4 x] by simp

lemma is_alu_op_zero_iff: "drop_bit 5 ((x::int) AND 32) = 0 \<longleftrightarrow> x AND 32 = 0"
  using masked_bit_zero_iff [of 5 x] by simp

lemma operand_count_eq: "drop_bit 6 ((x::int) AND 192) = drop_bit 6 x AND 3"
proof -
  have "drop_bit 6 (192::int) = 3" by (simp add: drop_bit_eq_div)
  then show ?thesis
    by (simp add: drop_bit_and del: drop_bit_numeral_bit0 drop_bit_numeral_bit1)
qed

subsection \<open>What each handler leaves alone\<close>

lemmas handler_unfold =
  CPU_LDI_def CPU_PRN_def CPU_HLT_def CPU_PUSH_def CPU_POP_def CPU_CALL_def CPU_RET_def
  CPU_JMP_def CPU_JEQ_def CPU_JNE_def Let_def set_stack_pointer_def stack_pointer_def
  ram_read_def

lemma alu_keeps_ir_pc:
  "ir (final_state (alu op a b st)) = ir st \<and> pc (final_state (alu op a b st)) = pc st"
  by (simp add: alu_def split: option.splits)

lemma alu_fl:
  "fl (final_state (alu op a b st)) = fl st \<or>
   (op = ''CMP'' \<and> fl (final_state (alu op a b st)) \<in> {1, 2, 4})"
  by (simp add: alu_def split: option.splits)

lemma method_keeps_ir_fl:
  assumes "h \<in> {CPU_LDI, CPU_PRN, CPU_HLT, CPU_PUSH, CPU_POP, CPU_CALL, CPU_RET, CPU_JMP,
                  CPU_JEQ, CPU_JNE}"
  shows "ir (final_state (h st)) = ir st \<and> fl (final_state (h st)) = fl st"
  using assms by (auto simp: handler_unfold split: option.splits)

lemma method_keeps_pc:
  assumes "h \<in> {CPU_LDI, CPU_PRN, CPU_HLT, CPU_PUSH, CPU_POP}"
  shows "pc (final_state (h st)) = pc st"
  using assms by (auto simp: handler_unfold split: option.splits)

text \<open>
  The table by shape: an opcode with bit 5 clear maps to a method, and to one that leaves
  the program counter alone when bit 4 is clear too; an opcode with bit 5 set maps to an
  ALU lambda and has bit 4 clear.
\<close>

lemma branchtable_cases:
  assumes "branchtable opcode = Some h"
  obtains (nullary) f where "opcode AND 32 = 0" and "h = Method f"
      and "f \<in> {CPU_LDI, CPU_PRN, CPU_HLT, CPU_PUSH, CPU_POP, CPU_CALL, CPU_RET, CPU_JMP,
                 CPU_JEQ, CPU_JNE}"
      and "opcode AND 16 = 0 \<Longrightarrow> f \<in> {CPU_LDI, CPU_PRN, CPU_HLT, CPU_PUSH, CPU_POP}"
    | (binary) op where "opcode AND 32 = 32" and "opcode AND 16 = 0" and "h = Lambda (alu op)"
      and "op = ''CMP'' \<Longrightarrow> opcode = CMP"
  using assms by (auto simp: branchtable_def opcode_defs split: if_splits)

lemma dispatch_frame:
  "ir (final_state (dispatch opcode a b st)) = ir st"
  "fl (final_state (dispatch opcode a b st)) = fl st \<or>
     (opcode = CMP \<and> fl (final_state (dispatch opcode a b st)) \<in> {1, 2, 4})"
  "opcode AND 16 = 0 \<Longrightarrow> pc (final_state (dispatch opcode a b st)) = pc st"
proof -
  have "ir (final_state (dispatch opcode a b st)) = ir st \<and>
        (fl (final_state (dispatch opcode a b st)) = fl st \<or>
           (opcode = CMP \<and> fl (final_state (dispatch opcode a b st)) \<in> {1, 2, 4})) \<and>
        (opcode AND 16 = 0 \<longrightarrow> pc (final_state (dispatch opcode a b st)) = pc st)"
  proof (cases "branchtable opcode")
    case None
    then show ?thesis by (simp add: dispatch_def)
  next
    case (Some h)
    then show ?thesis
    proof (cases rule: branchtable_cases)
      case (nullary f)
      with Some have "dispatch opcode a b st = f st"
        by (simp add: dispatch_def is_alu_op_zero_iff)
      with nullary method_keeps_ir_fl [of f st] method_keeps_pc [of f st]
      show ?thesis by simp
    next
      case (binary op)
      with Some have "dispatch opcode a b st = alu op a b st"
        by (simp add: dispatch_def is_alu_op_zero_iff)
      with binary alu_keeps_ir_pc [of op a b st] alu_fl [of op a b st]
      show ?thesis by auto
    qed
  qed
  then show "ir (final_state (dispatch opcode a b st)) = ir st"
    and "fl (final_state (dispatch opcode a b st)) = fl st \<or>
     (opcode = CMP \<and> fl (final_state (dispatch opcode a b st)) \<in> {1, 2, 4})"
    and "opcode AND 16 = 0 \<Longrightarrow> pc (final_state (dispatch opcode a b st)) = pc st"
    by simp_all
qed

lemma run_iteration_sets_pc:
  assumes "getitem (ram st) (pc st) = Some opcode"
    and "getitem (ram st) (pc st + 1) = Some oper_a"
    and "getitem (ram st) (pc st + 2) = Some oper_b"
    and "opcode AND 16 \<noteq> 0"
  shows "run_iteration st = dispatch opcode oper_a oper_b (st\<lparr>ir := Some opcode\<rparr>)"
proof -
  from assms(4) have "drop_bit 4 (opcode AND 16) \<noteq> 0"
    unfolding sets_pc_zero_iff .
  with assms(1-3) show ?thesis
    by (simp add: run_iteration_def ram_read_def Let_def split: sum.splits)
qed

lemma run_iteration_fl:
  "fl (final_state (run_iteration st)) = fl st \<or>
   (ir (final_state (run_iteration st)) = Some CMP \<and>
    fl (final_state (run_iteration st)) \<in> {1, 2, 4})"
proof (cases "getitem (ram st) (pc st)")
  case None
  then show ?thesis by (simp add: run_iteration_def ram_read_def)
next
  case opc: (Some opcode)
  let ?st1 = "st\<lparr>ir := Some opcode\<rparr>"
  show ?thesis
  proof (cases "getitem (ram st) (pc st + 1)")
    case None
    with opc show ?thesis by (simp add: run_iteration_def ram_read_def)
  next
    case a: (Some oper_a)
    show ?thesis
    proof (cases "getitem (ram st) (pc st + 2)")
      case None
      with opc a show ?thesis by (simp add: run_iteration_def ram_read_def)
    next
      case b: (Some oper_b)
      let ?d = "dispatch opcode oper_a oper_b ?st1"
      have f: "fl (final_state (run_iteration st)) = fl (final_state ?d)"
        and i: "ir (final_state (run_iteration st)) = ir (final_state ?d)"
        using opc a b
        by (auto simp: run_iteration_def ram_read_def Let_def split: sum.splits option.splits)
      from dispatch_frame(1,2) [of opcode oper_a oper_b ?st1]
      show ?thesis unfolding f i by auto
    qed
  qed
qed

lemma run_steps_fl:
  "fl st \<in> {0, 1, 2, 4} \<Longrightarrow> fl (final_state (run_steps n st)) \<in> {0, 1, 2, 4}"
proof (induction n arbitrary: st)
  case 0
  then show ?case by simp
next
  case (Suc n)
  show ?case
  proof (cases "run_iteration st")
    case (Inl e)
    with Suc.prems run_iteration_fl [of st] show ?thesis by auto
  next
    case (Inr st')
    with Suc.prems run_iteration_fl [of st] have "fl st' \<in> {0, 1, 2, 4}" by auto
    from Suc.IH [OF this] Inr show ?thesis by simp
  qed
qed

subsection \<open>The loader\<close>

lemma load_lines_fl:
  "fl (case load_lines program address st of Inl (e, st') \<Rightarrow> st' | Inr (st', a) \<Rightarrow> st')
     = fl st"
proof (induction program arbitrary: address st)
  case Nil
  show ?case by simp
next
  case (Cons line program)
  show ?case
  proof (cases "length (filter isdigit (take 8 line)) = 8")
    case False
    with Cons.IH [of address st] show ?thesis by (simp add: Let_def)
  next
    case True
    show ?thesis
    proof (cases "int_base2 (filter isdigit (take 8 line))")
      case None
      with True show ?thesis by (simp add: Let_def)
    next
      case (Some v)
      show ?thesis
      proof (cases "setitem (ram st) address v")
        case None
        with True Some show ?thesis by (simp add: Let_def ram_write_def)
      next
        case m: (Some m)
        with True Some Cons.IH [of "address + 1" "st\<lparr>ram := m\<rparr>"]
        show ?thesis by (simp add: Let_def ram_write_def)
      qed
    qed
  qed
qed

lemma int_base2_binary:
  "length s = 8 \<Longrightarrow> list_all binary_digit s \<Longrightarrow> int_base2 s = Some (binary_value s)"
  by (auto simp: int_base2_def)

lemma take_Suc_update:
  "n < length xs \<Longrightarrow> take (Suc n) (xs[n := v]) = take n xs @ [v]"
  by (simp add: take_Suc_conv_app_nth)

lemma load_lines_from:
  assumes "list_all (\<lambda>l. loadable l \<longrightarrow> list_all binary_digit (cleaned l)) program"
    and "n + length (filter loadable program) \<le> length (ram st)"
  shows "load_lines program (int n) st =
           Inr (st\<lparr>ram := take n (ram st)
                          @ map (\<lambda>l. binary_value (cleaned l)) (filter loadable program)
                          @ drop (n + length (filter loadable program)) (ram st)\<rparr>,
                int (n + length (filter loadable program)))"
  using assms
proof (induction program arbitrary: n st)
  case Nil
  then show ?case by simp
next
  case (Cons line program)
  show ?case
  proof (cases "loadable line")
    case False
    with Cons.prems Cons.IH [of n st] show ?thesis
      by (simp add: Let_def loadable_def cleaned_def)
  next
    case True
    let ?v = "binary_value (cleaned line)"
    let ?st' = "st\<lparr>ram := (ram st)[n := ?v]\<rparr>"
    from True Cons.prems have lt: "n < length (ram st)" by simp
    from True Cons.prems have "int_base2 (cleaned line) = Some ?v"
      by (simp add: int_base2_binary loadable_def)
    moreover from lt have "ram_write ?v (int n) st = Inr ?st'"
      by (simp add: ram_write_def setitem_in_range)
    ultimately have step: "load_lines (line # program) (int n) st =
        load_lines program (int (Suc n)) ?st'"
      using True by (simp add: Let_def loadable_def cleaned_def add.commute)
    from True Cons.prems
    have "load_lines program (int (Suc n)) ?st' =
           Inr (?st'\<lparr>ram := take (Suc n) (ram ?st')
                          @ map (\<lambda>l. binary_value (cleaned l)) (filter loadable program)
                          @ drop (Suc n + length (filter loadable program)) (ram ?st')\<rparr>,
                int (Suc n + length (filter loadable program)))"
      by (intro Cons.IH) simp_all
    with step True lt show ?thesis
      by (simp add: take_Suc_update del: take_Suc)
  qed
qed

subsection \<open>The lists keep their lengths\<close>

lemma alu_wf: "wf_cpu st \<Longrightarrow> wf_cpu (final_state (alu op a b st))"
  by (auto simp: alu_def wf_cpu_def setitem_def split: option.splits)

lemma method_wf:
  assumes "h \<in> {CPU_LDI, CPU_PRN, CPU_HLT, CPU_PUSH, CPU_POP, CPU_CALL, CPU_RET, CPU_JMP,
                  CPU_JEQ, CPU_JNE}"
    and "wf_cpu st"
  shows "wf_cpu (final_state (h st))"
  using assms
  by (auto simp: handler_unfold wf_cpu_def setitem_def split: option.splits)

lemma dispatch_wf: "wf_cpu st \<Longrightarrow> wf_cpu (final_state (dispatch opcode a b st))"
proof (cases "branchtable opcode")
  case None
  assume "wf_cpu st"
  with None show ?thesis by (simp add: dispatch_def)
next
  case (Some h)
  assume w: "wf_cpu st"
  from Some show ?thesis
  proof (cases rule: branchtable_cases)
    case (nullary f)
    with Some have "dispatch opcode a b st = f st"
      by (simp add: dispatch_def is_alu_op_zero_iff)
    with nullary method_wf [of f st] w show ?thesis by simp
  next
    case (binary op)
    with Some have "dispatch opcode a b st = alu op a b st"
      by (simp add: dispatch_def is_alu_op_zero_iff)
    with alu_wf [of st op a b] w show ?thesis by simp
  qed
qed

lemma run_iteration_wf:
  assumes "wf_cpu st"
  shows "wf_cpu (final_state (run_iteration st))"
proof (cases "getitem (ram st) (pc st)")
  case None
  with assms show ?thesis by (simp add: run_iteration_def ram_read_def)
next
  case opc: (Some opcode)
  let ?st1 = "st\<lparr>ir := Some opcode\<rparr>"
  from assms have w1: "wf_cpu ?st1" by (simp add: wf_cpu_def)
  show ?thesis
  proof (cases "getitem (ram st) (pc st + 1)")
    case None
    with opc w1 show ?thesis by (simp add: run_iteration_def ram_read_def)
  next
    case a: (Some oper_a)
    show ?thesis
    proof (cases "getitem (ram st) (pc st + 2)")
      case None
      with opc a w1 show ?thesis by (simp add: run_iteration_def ram_read_def)
    next
      case b: (Some oper_b)
      let ?d = "dispatch opcode oper_a oper_b ?st1"
      have "wf_cpu (final_state (run_iteration st)) = wf_cpu (final_state ?d)"
        using opc a b
        by (auto simp: run_iteration_def ram_read_def Let_def wf_cpu_def
            split: sum.splits option.splits)
      with dispatch_wf [OF w1, of opcode oper_a oper_b] show ?thesis by simp
    qed
  qed
qed

lemma run_steps_wf: "wf_cpu st \<Longrightarrow> wf_cpu (final_state (run_steps n st))"
proof (induction n arbitrary: st)
  case 0
  then show ?case by simp
next
  case (Suc n)
  show ?case
  proof (cases "run_iteration st")
    case (Inl e)
    with run_iteration_wf [OF Suc.prems] show ?thesis by simp
  next
    case (Inr st')
    with run_iteration_wf [OF Suc.prems] have "wf_cpu st'" by simp
    from Suc.IH [OF this] Inr show ?thesis by simp
  qed
qed

lemma load_lines_wf:
  "wf_cpu st \<Longrightarrow>
   wf_cpu (case load_lines program address st of Inl (e, st') \<Rightarrow> st' | Inr (st', a) \<Rightarrow> st')"
proof (induction program arbitrary: address st)
  case Nil
  then show ?case by simp
next
  case (Cons line program)
  show ?case
  proof (cases "length (filter isdigit (take 8 line)) = 8")
    case False
    with Cons.IH [OF Cons.prems, of address] show ?thesis by (simp add: Let_def)
  next
    case True
    show ?thesis
    proof (cases "int_base2 (filter isdigit (take 8 line))")
      case None
      with True Cons.prems show ?thesis by (simp add: Let_def)
    next
      case (Some v)
      show ?thesis
      proof (cases "setitem (ram st) address v")
        case None
        with True Some Cons.prems show ?thesis by (simp add: Let_def ram_write_def)
      next
        case m: (Some m)
        with Cons.prems have "wf_cpu (st\<lparr>ram := m\<rparr>)"
          by (auto simp: wf_cpu_def dest: setitem_length)
        from Cons.IH [OF this, of "address + 1"] True Some m
        show ?thesis by (simp add: Let_def ram_write_def)
      qed
    qed
  qed
qed

lemma load_steps_wf: "wf_cpu (final_state (load_steps n program))"
proof -
  have w: "wf_cpu CPU_init" by (simp add: wf_cpu_def CPU_init_def)
  show ?thesis
  proof (cases "load_lines program 0 CPU_init")
    case (Inl p)
    with load_lines_wf [OF w, of program 0] show ?thesis
      by (cases p) (simp add: load_steps_def)
  next
    case (Inr p)
    obtain st' a where p: "p = (st', a)" by (cases p)
    with Inr load_lines_wf [OF w, of program 0] have "wf_cpu st'" by simp
    from run_steps_wf [OF this, of n] Inr p show ?thesis by (simp add: load_steps_def)
  qed
qed

text \<open>Once an iteration raises, the loop is over: \<open>run\<close> returns that exception.\<close>

lemma run_raises:
  "run_iteration st = Inl e \<Longrightarrow> run st = Some e"
  by (subst run.simps) simp

lemma run_steps_run:
  "run_steps n st = Inl e \<Longrightarrow> run st = Some e"
proof (induction n arbitrary: st)
  case 0
  then show ?case by simp
next
  case (Suc n)
  then show ?case
    by (subst run.simps) (auto split: sum.splits)
qed

section \<open>The claims\<close>

subsection \<open>C1: ADD and MUL\<close>

text \<open>
  C1, as stated: ADD and MUL reduce the result modulo 256, so that with \<open>reg[0] = 250\<close> and
  \<open>reg[1] = 10\<close> the instruction \<^verbatim>\<open>ADD 0 1\<close> leaves \<open>reg[0] = 4\<close>. The source adds Python
  integers and stores the sum as it is: the register then holds 260.
\<close>

theorem alu_ADD_wraparound_counterexample:
  "reg (final_state (alu ''ADD'' 0 1 example_regs)) ! 0 = 260
   \<and> reg (final_state (alu ''ADD'' 0 1 example_regs)) ! 0 \<noteq> (250 + 10) mod 256"
  by code_simp

text \<open>
  C1, amended: for register indices \<open>a\<close>, \<open>b\<close> in \<open>[0, 8)\<close> and any register contents, ADD
  sets \<open>reg[a]\<close> to the integer \<open>reg[a] + reg[b]\<close> and MUL sets it to \<open>reg[a] * reg[b]\<close>, with
  no reduction modulo 256; nothing else in the state changes.
\<close>

theorem alu_ADD_MUL_unbounded:
  assumes "0 \<le> a" and "a < 8" and "0 \<le> b" and "b < 8" and "length (reg st) = 8"
  shows "alu ''ADD'' a b st =
           Inr (st\<lparr>reg := (reg st)[nat a := reg st ! nat a + reg st ! nat b]\<rparr>)
       \<and> alu ''MUL'' a b st =
           Inr (st\<lparr>reg := (reg st)[nat a := reg st ! nat a * reg st ! nat b]\<rparr>)"
  using assms by (simp add: alu_def getitem_in_range setitem_in_range)

theorem alu_ADD_MUL_unbounded_witness:
  "length (reg example_regs) = 8
   \<and> alu ''ADD'' 0 1 example_regs =
       Inr (example_regs\<lparr>reg := [260, 10, 5, 9, 0, 0, 0, 244]\<rparr>)
   \<and> alu ''MUL'' 0 1 example_regs =
       Inr (example_regs\<lparr>reg := [2500, 10, 5, 9, 0, 0, 0, 244]\<rparr>)"
proof -
  have l: "length (reg example_regs) = 8" by (simp add: example_regs_def)
  have r: "reg example_regs = [250, 10, 5, 9, 0, 0, 0, 244]" by (simp add: example_regs_def)
  from alu_ADD_MUL_unbounded [of 0 1 example_regs, OF _ _ _ _ l] l show ?thesis
    by (simp add: r)
qed

subsection \<open>C2: CALL\<close>

text \<open>
  C2: with every subscript in range, the CALL handler decrements register 7, writes the
  operand byte \<open>ram[pc + 1]\<close> at the new register-7 address, and sets \<open>pc\<close> to
  \<open>reg[pc + 1]\<close>, the register selected by the address \<open>pc + 1\<close> itself (read after the
  decrement). Bit 4 of the opcode is set, and an iteration that fetches CALL ends in the
  state the handler left, with no further advance of \<open>pc\<close>.
\<close>

theorem CALL_pushes_operand_then_indexes_reg_by_address:
  assumes "wf_cpu st"
    and "0 \<le> pc st + 1" and "pc st + 1 < 8"
    and "0 \<le> reg st ! 7 - 1" and "reg st ! 7 - 1 < 256"
  shows "CPU_CALL st =
           Inr (st\<lparr>reg := (reg st)[7 := reg st ! 7 - 1],
                   ram := (ram st)[nat (reg st ! 7 - 1) := ram st ! nat (pc st + 1)],
                   pc := ((reg st)[7 := reg st ! 7 - 1]) ! nat (pc st + 1)\<rparr>)
         \<and> CALL AND 16 \<noteq> 0
         \<and> (getitem (ram st) (pc st) = Some CALL \<longrightarrow>
              run_iteration st = CPU_CALL (st\<lparr>ir := Some CALL\<rparr>))"
proof (intro conjI impI)
  from assms show "CPU_CALL st =
           Inr (st\<lparr>reg := (reg st)[7 := reg st ! 7 - 1],
                   ram := (ram st)[nat (reg st ! 7 - 1) := ram st ! nat (pc st + 1)],
                   pc := ((reg st)[7 := reg st ! 7 - 1]) ! nat (pc st + 1)\<rparr>)"
    by (simp add: CPU_CALL_def wf_cpu_def Let_def stack_pointer_def set_stack_pointer_def
        getitem_in_range setitem_in_range)
next
  show "CALL AND 16 \<noteq> 0" by (simp add: CALL_def)
next
  assume f: "getitem (ram st) (pc st) = Some CALL"
  from assms have a: "getitem (ram st) (pc st + 1) = Some (ram st ! nat (pc st + 1))"
    and b: "getitem (ram st) (pc st + 2) = Some (ram st ! nat (pc st + 2))"
    by (simp_all add: wf_cpu_def getitem_in_range)
  have "dispatch CALL x y s = CPU_CALL s" for x y s
    by (simp add: dispatch_def branchtable_def opcode_defs)
  moreover have "CALL AND 16 \<noteq> 0" by (simp add: CALL_def)
  ultimately show "run_iteration st = CPU_CALL (st\<lparr>ir := Some CALL\<rparr>)"
    using run_iteration_sets_pc [OF f a b] by simp
qed

theorem CALL_pushes_operand_then_indexes_reg_by_address_witness:
  "wf_cpu (with_ram [CALL, 3] example_regs)
   \<and> CPU_CALL (with_ram [CALL, 3] example_regs) =
       Inr (with_ram [CALL, 3] example_regs
              \<lparr>reg := [250, 10, 5, 9, 0, 0, 0, 243],
               ram := (ram (with_ram [CALL, 3] example_regs))[243 := 3],
               pc := 10\<rparr>)
   \<and> run_iteration (with_ram [CALL, 3] example_regs) =
       CPU_CALL (with_ram [CALL, 3] example_regs\<lparr>ir := Some CALL\<rparr>)"
proof -
  let ?st = "with_ram [CALL, 3] example_regs"
  have w: "wf_cpu ?st" by code_simp
  have p: "pc ?st = 0" by code_simp
  have r: "reg ?st = [250, 10, 5, 9, 0, 0, 0, 244]" by code_simp
  have m: "ram ?st ! Suc 0 = 3" by code_simp
  have f: "getitem (ram ?st) (pc ?st) = Some CALL" by code_simp
  from CALL_pushes_operand_then_indexes_reg_by_address [of ?st, OF w] w f show ?thesis
    by (simp add: p r m)
qed

subsection \<open>C3: CMP\<close>

lemma one_bit_exp: "card {k. bit ((2::int) ^ n) k} = 1"
proof -
  have "{k. bit ((2::int) ^ n) k} = {n}" by (auto simp: bit_exp_iff)
  then show ?thesis by simp
qed

lemma one_bit_1_2_4:
  "card {k. bit (1::int) k} = 1" "card {k. bit (2::int) k} = 1" "card {k. bit (4::int) k} = 1"
  using one_bit_exp [of 0] one_bit_exp [of 1] one_bit_exp [of 2] by simp_all

text \<open>
  C3: for register indices \<open>a\<close>, \<open>b\<close> in \<open>[0, 8)\<close> and any previous flags, CMP sets the flags
  register to 4 when \<open>reg[a] < reg[b]\<close>, to 2 when \<open>reg[a] > reg[b]\<close> and to 1 when they
  are equal, changing nothing else; the new value has exactly one bit set.
\<close>

theorem alu_CMP_sets_one_flag:
  assumes "0 \<le> a" and "a < 8" and "0 \<le> b" and "b < 8" and "length (reg st) = 8"
  shows "alu ''CMP'' a b st =
           Inr (st\<lparr>fl := (if reg st ! nat a < reg st ! nat b then 4
                          else if reg st ! nat a > reg st ! nat b then 2 else 1)\<rparr>)
       \<and> card {k. bit (fl (final_state (alu ''CMP'' a b st))) k} = 1"
  using assms by (auto simp: alu_def getitem_in_range one_bit_1_2_4)

theorem alu_CMP_sets_one_flag_witness:
  "length (reg example_regs) = 8
   \<and> alu ''CMP'' 2 3 (example_regs\<lparr>fl := 2\<rparr>) = Inr (example_regs\<lparr>fl := 4\<rparr>)
   \<and> alu ''CMP'' 3 2 (example_regs\<lparr>fl := 4\<rparr>) = Inr (example_regs\<lparr>fl := 2\<rparr>)
   \<and> alu ''CMP'' 2 2 (example_regs\<lparr>fl := 4\<rparr>) = Inr (example_regs\<lparr>fl := 1\<rparr>)"
proof -
  have l: "length (reg (example_regs\<lparr>fl := v\<rparr>)) = 8" for v
    by (simp add: example_regs_def)
  have r: "reg example_regs = [250, 10, 5, 9, 0, 0, 0, 244]" by (simp add: example_regs_def)
  from alu_CMP_sets_one_flag [of 2 3 "example_regs\<lparr>fl := 2\<rparr>", OF _ _ _ _ l]
    alu_CMP_sets_one_flag [of 3 2 "example_regs\<lparr>fl := 4\<rparr>", OF _ _ _ _ l]
    alu_CMP_sets_one_flag [of 2 2 "example_regs\<lparr>fl := 4\<rparr>", OF _ _ _ _ l]
    l [of 0]
  show ?thesis by (simp add: r example_regs_def)
qed

subsection \<open>C4: the automatic advance of the program counter\<close>

text \<open>
  C4: in an iteration of the run loop that fetches \<open>opcode\<close> and whose handler returns in
  state \<open>st2\<close>: if bit 4 of the opcode is clear, the iteration ends in \<open>st2\<close> with \<open>pc\<close>
  increased by \<open>((opcode >> 6) & 3) + 1\<close> (and the handler had left \<open>pc\<close> where it was);
  if bit 4 is set, the iteration ends in \<open>st2\<close> itself.
\<close>

theorem run_iteration_pc_advance:
  assumes "run_iteration st = Inr st'" and "getitem (ram st) (pc st) = Some opcode"
  shows "\<exists>oper_a oper_b st2.
           getitem (ram st) (pc st + 1) = Some oper_a \<and>
           getitem (ram st) (pc st + 2) = Some oper_b \<and>
           dispatch opcode oper_a oper_b (st\<lparr>ir := Some opcode\<rparr>) = Inr st2 \<and>
           (if opcode AND 16 = 0
            then st' = st2\<lparr>pc := pc st2 + ((drop_bit 6 opcode AND 3) + 1)\<rparr> \<and>
                 pc st' = pc st + ((drop_bit 6 opcode AND 3) + 1)
            else st' = st2)"
proof -
  let ?st1 = "st\<lparr>ir := Some opcode\<rparr>"
  from assms obtain oper_a oper_b st2 where
    a: "getitem (ram st) (pc st + 1) = Some oper_a" and
    b: "getitem (ram st) (pc st + 2) = Some oper_b" and
    d: "dispatch opcode oper_a oper_b ?st1 = Inr st2" and
    r0: "(if drop_bit 4 (opcode AND 16) = 0
          then (case ir st2 of None \<Rightarrow> Inl (TypeError, st2)
                | Some i \<Rightarrow> Inr (st2\<lparr>pc := pc st2 + (drop_bit 6 (i AND 192) + 1)\<rparr>))
          else Inr st2) = Inr st'"
    by (auto simp: run_iteration_def ram_read_def Let_def split: option.splits sum.splits)
  have r: "(if opcode AND 16 = 0
            then (case ir st2 of None \<Rightarrow> Inl (TypeError, st2)
                  | Some i \<Rightarrow> Inr (st2\<lparr>pc := pc st2 + ((drop_bit 6 i AND 3) + 1)\<rparr>))
            else Inr st2) = Inr st'"
    using r0 unfolding sets_pc_zero_iff operand_count_eq .
  from d dispatch_frame(1) [of opcode oper_a oper_b ?st1]
  have i: "ir st2 = Some opcode" by simp
  have "if opcode AND 16 = 0
        then st' = st2\<lparr>pc := pc st2 + ((drop_bit 6 opcode AND 3) + 1)\<rparr> \<and>
             pc st' = pc st + ((drop_bit 6 opcode AND 3) + 1)
        else st' = st2"
  proof (cases "opcode AND 16 = 0")
    case True
    with d dispatch_frame(3) [of opcode oper_a oper_b ?st1]
    have "pc st2 = pc st" by simp
    with True r i show ?thesis by auto
  next
    case False
    with r show ?thesis by simp
  qed
  with a b d show ?thesis by blast
qed

theorem run_iteration_pc_advance_witness:
  "run_iteration example_ldi =
     Inr (example_ldi\<lparr>reg := [8, 0, 0, 0, 0, 0, 0, 244], ir := Some LDI, pc := 3\<rparr>)
   \<and> getitem (ram example_ldi) (pc example_ldi) = Some LDI
   \<and> (\<exists>oper_a oper_b st2.
         getitem (ram example_ldi) (pc example_ldi + 1) = Some oper_a \<and>
         getitem (ram example_ldi) (pc example_ldi + 2) = Some oper_b \<and>
         dispatch LDI oper_a oper_b (example_ldi\<lparr>ir := Some LDI\<rparr>) = Inr st2 \<and>
         (if LDI AND 16 = 0
          then example_ldi\<lparr>reg := [8, 0, 0, 0, 0, 0, 0, 244], ir := Some LDI, pc := 3\<rparr> =
                 st2\<lparr>pc := pc st2 + ((drop_bit 6 LDI AND 3) + 1)\<rparr> \<and>
               pc (example_ldi\<lparr>reg := [8, 0, 0, 0, 0, 0, 0, 244], ir := Some LDI, pc := 3\<rparr>) =
                 pc example_ldi + ((drop_bit 6 LDI AND 3) + 1)
          else example_ldi\<lparr>reg := [8, 0, 0, 0, 0, 0, 0, 244], ir := Some LDI, pc := 3\<rparr> =
                 st2))"
proof -
  have h1: "run_iteration example_ldi =
     Inr (example_ldi\<lparr>reg := [8, 0, 0, 0, 0, 0, 0, 244], ir := Some LDI, pc := 3\<rparr>)"
    by code_simp
  have h2: "getitem (ram example_ldi) (pc example_ldi) = Some LDI" by code_simp
  show ?thesis
    by (rule conjI [OF h1 conjI [OF h2 run_iteration_pc_advance [OF h1 h2]]])
qed

subsection \<open>C5: JEQ and JNE\<close>

lemma dispatch_JEQ_JNE:
  "dispatch JEQ x y s = CPU_JEQ s" "dispatch JNE x y s = CPU_JNE s"
  by (simp_all add: dispatch_def branchtable_def opcode_defs)

text \<open>
  C5: with the operand \<open>k = ram[pc + 1]\<close> readable and \<open>reg[k]\<close> a register, JEQ sets \<open>pc\<close>
  to \<open>reg[k]\<close> exactly when the whole flags register equals 1 and to \<open>pc + 2\<close> otherwise;
  JNE sets \<open>pc\<close> to \<open>reg[k]\<close> exactly when the flags register differs from 1 and to
  \<open>pc + 2\<close> otherwise. An iteration of the run loop that fetches either opcode ends with
  that \<open>pc\<close>: no automatic advance is added.
\<close>

theorem JEQ_JNE_test_whole_flags:
  assumes "getitem (ram st) (pc st + 1) = Some k" and "getitem (reg st) k = Some target"
  shows "CPU_JEQ st = Inr (st\<lparr>pc := (if fl st = 1 then target else pc st + 2)\<rparr>)
       \<and> CPU_JNE st = Inr (st\<lparr>pc := (if fl st \<noteq> 1 then target else pc st + 2)\<rparr>)
       \<and> (getitem (ram st) (pc st) = Some JEQ \<and> getitem (ram st) (pc st + 2) \<noteq> None \<longrightarrow>
            run_iteration st =
              Inr (st\<lparr>ir := Some JEQ, pc := (if fl st = 1 then target else pc st + 2)\<rparr>))
       \<and> (getitem (ram st) (pc st) = Some JNE \<and> getitem (ram st) (pc st + 2) \<noteq> None \<longrightarrow>
            run_iteration st =
              Inr (st\<lparr>ir := Some JNE, pc := (if fl st \<noteq> 1 then target else pc st + 2)\<rparr>))"
proof -
  have q: "CPU_JEQ s = Inr (s\<lparr>pc := (if fl s = 1 then target else pc s + 2)\<rparr>)"
    and n: "CPU_JNE s = Inr (s\<lparr>pc := (if fl s \<noteq> 1 then target else pc s + 2)\<rparr>)"
    if "ram s = ram st" "reg s = reg st" "pc s = pc st" for s
    using that assms by (simp_all add: CPU_JEQ_def CPU_JNE_def CPU_JMP_def)
  have bit4: "JEQ AND 16 \<noteq> 0" "JNE AND 16 \<noteq> 0"
    by (simp_all add: JEQ_def JNE_def)
  have "run_iteration st =
          Inr (st\<lparr>ir := Some JEQ, pc := (if fl st = 1 then target else pc st + 2)\<rparr>)"
    if "getitem (ram st) (pc st) = Some JEQ" "getitem (ram st) (pc st + 2) = Some b" for b
    using run_iteration_sets_pc [OF that(1) assms(1) that(2) bit4(1)]
      q [of "st\<lparr>ir := Some JEQ\<rparr>"]
    by (simp add: dispatch_JEQ_JNE)
  moreover have "run_iteration st =
          Inr (st\<lparr>ir := Some JNE, pc := (if fl st \<noteq> 1 then target else pc st + 2)\<rparr>)"
    if "getitem (ram st) (pc st) = Some JNE" "getitem (ram st) (pc st + 2) = Some b" for b
    using run_iteration_sets_pc [OF that(1) assms(1) that(2) bit4(2)]
      n [of "st\<lparr>ir := Some JNE\<rparr>"]
    by (simp add: dispatch_JEQ_JNE)
  ultimately show ?thesis using q [of st] n [of st] by auto
qed

theorem JEQ_JNE_test_whole_flags_witness:
  "getitem (ram example_jeq) (pc example_jeq + 1) = Some 2
   \<and> getitem (reg example_jeq) 2 = Some 5
   \<and> fl example_jeq = 1
   \<and> CPU_JEQ example_jeq = Inr (example_jeq\<lparr>pc := 5\<rparr>)
   \<and> CPU_JNE example_jeq = Inr (example_jeq\<lparr>pc := 2\<rparr>)
   \<and> run_iteration example_jeq = Inr (example_jeq\<lparr>ir := Some JEQ, pc := 5\<rparr>)"
proof -
  have h1: "getitem (ram example_jeq) (pc example_jeq + 1) = Some 2" by code_simp
  have h2: "getitem (reg example_jeq) 2 = Some 5" by code_simp
  have f: "fl example_jeq = 1" and p: "pc example_jeq = 0" by code_simp+
  have g: "getitem (ram example_jeq) (pc example_jeq) = Some JEQ"
    and g2: "getitem (ram example_jeq) (pc example_jeq + 2) \<noteq> None" by code_simp+
  from JEQ_JNE_test_whole_flags [OF h1 h2] g g2 have
    "CPU_JEQ example_jeq =
       Inr (example_jeq\<lparr>pc := (if fl example_jeq = 1 then 5 else pc example_jeq + 2)\<rparr>)"
    "CPU_JNE example_jeq =
       Inr (example_jeq\<lparr>pc := (if fl example_jeq \<noteq> 1 then 5 else pc example_jeq + 2)\<rparr>)"
    "run_iteration example_jeq =
       Inr (example_jeq\<lparr>ir := Some JEQ,
              pc := (if fl example_jeq = 1 then 5 else pc example_jeq + 2)\<rparr>)"
    by blast+
  with h1 h2 f show ?thesis by (simp add: p)
qed

subsection \<open>C6: an opcode without a handler\<close>

text \<open>
  C6, as stated: an opcode missing from the branch table stops execution with an
  \<^verbatim>\<open>UnknownInstruction\<close> error that reports the opcode and the program counter. The source
  has no such error: the dictionary lookup raises \<^verbatim>\<open>KeyError\<close>, whose only argument is the
  opcode. Loading \<^verbatim>\<open>LDI 0 8\<close> followed by the byte 255 and running two iterations stops at
  \<open>pc = 3\<close> with \<^verbatim>\<open>KeyError(255)\<close>.
\<close>

theorem unknown_opcode_counterexample:
  "raised (load_steps 2 example_unknown) = Some (KeyError 255)
   \<and> pc (final_state (load_steps 2 example_unknown)) = 3
   \<and> \<not> reports_UnknownInstruction (KeyError 255) 255 3"
  by code_simp

text \<open>
  C6, amended: when the run loop fetches an opcode that has no handler in the branch
  table, and the two cells after it are readable, execution stops at once with Python's
  \<^verbatim>\<open>KeyError\<close> carrying the opcode alone (the program counter is not reported); the state
  is the one before the fetch except that \<open>ir\<close> holds the opcode.
\<close>

theorem unknown_opcode_raises_KeyError:
  assumes "getitem (ram st) (pc st) = Some opcode" and "branchtable opcode = None"
    and "getitem (ram st) (pc st + 1) \<noteq> None" and "getitem (ram st) (pc st + 2) \<noteq> None"
  shows "run_iteration st = Inl (KeyError opcode, st\<lparr>ir := Some opcode\<rparr>)
       \<and> run st = Some (KeyError opcode, st\<lparr>ir := Some opcode\<rparr>)
       \<and> error_int_args (KeyError opcode) = [opcode]"
proof -
  from assms have r: "run_iteration st = Inl (KeyError opcode, st\<lparr>ir := Some opcode\<rparr>)"
    by (auto simp: run_iteration_def ram_read_def dispatch_def Let_def)
  from run_raises [OF r] r show ?thesis by simp
qed

theorem unknown_opcode_raises_KeyError_witness:
  "getitem (ram example_unknown_state) (pc example_unknown_state) = Some 255
   \<and> branchtable 255 = None
   \<and> pc example_unknown_state = 3
   \<and> run_iteration example_unknown_state =
       Inl (KeyError 255, example_unknown_state\<lparr>ir := Some 255\<rparr>)
   \<and> run example_unknown_state = Some (KeyError 255, example_unknown_state\<lparr>ir := Some 255\<rparr>)"
proof -
  have h1: "getitem (ram example_unknown_state) (pc example_unknown_state) = Some 255"
    by code_simp
  have h2: "branchtable 255 = None" by (simp add: branchtable_def opcode_defs)
  have h3: "getitem (ram example_unknown_state) (pc example_unknown_state + 1) \<noteq> None"
    and h4: "getitem (ram example_unknown_state) (pc example_unknown_state + 2) \<noteq> None"
    by code_simp+
  have p: "pc example_unknown_state = 3" by code_simp
  from unknown_opcode_raises_KeyError [OF h1 h2 h3 h4] h1 h2 p show ?thesis by simp
qed

subsection \<open>C7: the loader\<close>

text \<open>
  C7, as stated: every line whose first 8 characters, filtered to digit characters, are
  exactly 8 digits is loaded, those digits parsed as binary. \<^verbatim>\<open>str.isdigit\<close> also accepts
  the digits 2 to 9, which \<^verbatim>\<open>int(s, 2)\<close> rejects: on the line \<^verbatim>\<open>12345678\<close> the loader raises
  \<^verbatim>\<open>ValueError\<close> and writes nothing.
\<close>

theorem load_decimal_digits_counterexample:
  "loadable ''12345678'' \<and> load_lines [''12345678''] 0 CPU_init = Inl (ValueError, CPU_init)"
  by code_simp

text \<open>
  C7, amended: for every sequence of lines in which each line that yields 8 digits yields
  only the digits 0 and 1, and in which no more lines yield 8 digits than memory has
  cells, the loop of \<^verbatim>\<open>load\<close> writes the binary values of exactly the lines that yield 8
  digits, in order, to the consecutive addresses from 0, leaves the rest of memory as it
  was, and ends with the load address equal to the number of such lines; the other lines
  are skipped and do not advance the address.
\<close>

theorem load_lines_binary_program:
  assumes "list_all (\<lambda>l. loadable l \<longrightarrow> list_all binary_digit (cleaned l)) program"
    and "length (filter loadable program) \<le> length (ram st)"
  shows "load_lines program 0 st =
           Inr (st\<lparr>ram := map (\<lambda>l. binary_value (cleaned l)) (filter loadable program)
                          @ drop (length (filter loadable program)) (ram st)\<rparr>,
                int (length (filter loadable program)))"
  using load_lines_from [of program 0 st] assms by simp

theorem load_lines_binary_program_witness:
  "list_all (\<lambda>l. loadable l \<longrightarrow> list_all binary_digit (cleaned l)) example_cmp
   \<and> length (filter loadable example_cmp) \<le> length (ram CPU_init)
   \<and> load_lines example_cmp 0 CPU_init =
       Inr (CPU_init\<lparr>ram := [130, 0, 5, 130, 1, 9, 167, 0, 1, 1] @ replicate 246 0\<rparr>, 10)"
proof -
  have h1: "list_all (\<lambda>l. loadable l \<longrightarrow> list_all binary_digit (cleaned l)) example_cmp"
    by code_simp
  have h2: "length (filter loadable example_cmp) \<le> length (ram CPU_init)"
    by code_simp
  have v: "map (\<lambda>l. binary_value (cleaned l)) (filter loadable example_cmp)
             @ drop (length (filter loadable example_cmp)) (ram CPU_init)
           = [130, 0, 5, 130, 1, 9, 167, 0, 1, 1] @ replicate 246 0"
    by code_simp
  have c: "int (length (filter loadable example_cmp)) = 10" by code_simp
  from load_lines_binary_program [OF h1 h2] h1 h2 show ?thesis
    unfolding v c by simp
qed

subsection \<open>C8: PUSH followed by POP\<close>

text \<open>
  C8: for every CPU state, when PUSH and then POP both return, register 7 (and the whole
  register file) is what it was before the pair. With \<open>pc + 1\<close> and the decremented stack
  pointer in \<open>[0, 256)\<close> both do return: PUSH decrements register 7 and writes
  \<open>ram[pc + 1]\<close> at the new register-7 address, POP copies that cell into \<open>ram[pc + 1]\<close>
  and increments register 7.
\<close>

theorem PUSH_then_POP_restores_stack_pointer:
  assumes "wf_cpu st"
  shows "(\<forall>st2. and_then (CPU_PUSH st) CPU_POP = Inr st2 \<longrightarrow>
            stack_pointer st2 = stack_pointer st \<and> reg st2 = reg st)
       \<and> (0 \<le> pc st + 1 \<and> pc st + 1 < 256 \<and> 0 \<le> reg st ! 7 - 1 \<and> reg st ! 7 - 1 < 256 \<longrightarrow>
            CPU_PUSH st =
              Inr (st\<lparr>reg := (reg st)[7 := reg st ! 7 - 1],
                      ram := (ram st)[nat (reg st ! 7 - 1) := ram st ! nat (pc st + 1)]\<rparr>) \<and>
            and_then (CPU_PUSH st) CPU_POP =
              Inr (st\<lparr>ram := (ram st)[nat (reg st ! 7 - 1) := ram st ! nat (pc st + 1),
                                       nat (pc st + 1) :=
                                         (ram st)[nat (reg st ! 7 - 1) := ram st ! nat (pc st + 1)]
                                           ! nat (reg st ! 7 - 1)]\<rparr>))"
proof (intro conjI allI impI)
  fix st2
  assume "and_then (CPU_PUSH st) CPU_POP = Inr st2"
  then obtain st1 where p: "CPU_PUSH st = Inr st1" and q: "CPU_POP st1 = Inr st2"
    by (cases "CPU_PUSH st") auto
  from p have r1: "reg st1 = (reg st)[7 := reg st ! 7 - 1]"
    by (auto simp: CPU_PUSH_def Let_def stack_pointer_def set_stack_pointer_def
        split: option.splits)
  from q have r2: "reg st2 = (reg st1)[7 := reg st1 ! 7 + 1]"
    by (auto simp: CPU_POP_def Let_def stack_pointer_def set_stack_pointer_def
        split: option.splits)
  from assms have l: "7 < length (reg st)" by (simp add: wf_cpu_def)
  from r1 r2 l have "reg st2 = (reg st)[7 := reg st ! 7]" by simp
  then show "stack_pointer st2 = stack_pointer st" "reg st2 = reg st"
    by (simp_all add: stack_pointer_def)
next
  assume a: "0 \<le> pc st + 1 \<and> pc st + 1 < 256 \<and> 0 \<le> reg st ! 7 - 1 \<and> reg st ! 7 - 1 < 256"
  with assms show p: "CPU_PUSH st =
              Inr (st\<lparr>reg := (reg st)[7 := reg st ! 7 - 1],
                      ram := (ram st)[nat (reg st ! 7 - 1) := ram st ! nat (pc st + 1)]\<rparr>)"
    by (simp add: CPU_PUSH_def wf_cpu_def Let_def stack_pointer_def set_stack_pointer_def
        getitem_in_range setitem_in_range)
  from a assms show "and_then (CPU_PUSH st) CPU_POP =
              Inr (st\<lparr>ram := (ram st)[nat (reg st ! 7 - 1) := ram st ! nat (pc st + 1),
                                       nat (pc st + 1) :=
                                         (ram st)[nat (reg st ! 7 - 1) := ram st ! nat (pc st + 1)]
                                           ! nat (reg st ! 7 - 1)]\<rparr>)"
    unfolding p
    by (simp add: CPU_POP_def wf_cpu_def Let_def stack_pointer_def set_stack_pointer_def
        getitem_in_range setitem_in_range)
qed

theorem PUSH_then_POP_restores_stack_pointer_witness:
  "wf_cpu example_push
   \<and> stack_pointer example_push = 244
   \<and> CPU_PUSH example_push =
       Inr (example_push\<lparr>reg := [250, 10, 5, 9, 0, 0, 0, 243],
                         ram := (ram example_push)[243 := 7]\<rparr>)
   \<and> and_then (CPU_PUSH example_push) CPU_POP =
       Inr (example_push\<lparr>ram := (ram example_push)[243 := 7]\<rparr>)
   \<and> stack_pointer (example_push\<lparr>ram := (ram example_push)[243 := 7]\<rparr>) = 244"
proof -
  have w: "wf_cpu example_push" by code_simp
  have s: "stack_pointer example_push = 244" by code_simp
  have e1: "CPU_PUSH example_push =
       Inr (example_push\<lparr>reg := [250, 10, 5, 9, 0, 0, 0, 243],
                         ram := (ram example_push)[243 := 7]\<rparr>)" by code_simp
  have e2: "and_then (CPU_PUSH example_push) CPU_POP =
       Inr (example_push\<lparr>ram := (ram example_push)[243 := 7]\<rparr>)" by code_simp
  from PUSH_then_POP_restores_stack_pointer [OF w] e2
  have "stack_pointer (example_push\<lparr>ram := (ram example_push)[243 := 7]\<rparr>)
          = stack_pointer example_push" by blast
  with w s e1 e2 show ?thesis by simp
qed

subsection \<open>C9: the operand cells are read before dispatch\<close>

text \<open>
  C9: every iteration of the run loop reads \<open>ram[pc + 1]\<close> and \<open>ram[pc + 2]\<close> before it
  looks the opcode up, whatever the opcode: if either subscript is out of range the
  iteration raises \<^verbatim>\<open>IndexError\<close>. With \<open>pc\<close> at 254 or 255 the opcode itself is readable
  but \<open>pc + 2\<close> is an address outside \<open>[0, 256)\<close>, so the iteration ends with
  \<^verbatim>\<open>IndexError\<close> and only \<open>ir\<close> changed, even when the opcode is HLT or RET.
\<close>

theorem run_iteration_reads_both_operand_cells:
  "(getitem (ram st) (pc st + 1) = None \<or> getitem (ram st) (pc st + 2) = None \<longrightarrow>
      raised (run_iteration st) = Some IndexError)
   \<and> (wf_cpu st \<and> (pc st = 254 \<or> pc st = 255) \<longrightarrow>
      getitem (ram st) (pc st) \<noteq> None \<and> getitem (ram st) (pc st + 2) = None \<and>
      run_iteration st = Inl (IndexError, st\<lparr>ir := getitem (ram st) (pc st)\<rparr>))"
proof (intro conjI impI)
  assume "getitem (ram st) (pc st + 1) = None \<or> getitem (ram st) (pc st + 2) = None"
  then show "raised (run_iteration st) = Some IndexError"
    by (auto simp: run_iteration_def ram_read_def Let_def split: option.splits)
next
  assume a: "wf_cpu st \<and> (pc st = 254 \<or> pc st = 255)"
  then have f: "getitem (ram st) (pc st) = Some (ram st ! nat (pc st))"
    by (auto simp: wf_cpu_def getitem_in_range)
  from a have b: "getitem (ram st) (pc st + 2) = None"
    by (auto simp: wf_cpu_def getitem_beyond)
  from f show "getitem (ram st) (pc st) \<noteq> None" by simp
  from b show "getitem (ram st) (pc st + 2) = None" .
  from f b show "run_iteration st = Inl (IndexError, st\<lparr>ir := getitem (ram st) (pc st)\<rparr>)"
    by (simp add: run_iteration_def ram_read_def Let_def split: option.splits)
qed

theorem run_iteration_reads_both_operand_cells_witness:
  "wf_cpu example_hlt_at_top \<and> pc example_hlt_at_top = 255
   \<and> getitem (ram example_hlt_at_top) (pc example_hlt_at_top) = Some HLT
   \<and> getitem (ram example_hlt_at_top) (pc example_hlt_at_top + 2) = None
   \<and> run_iteration example_hlt_at_top =
       Inl (IndexError, example_hlt_at_top\<lparr>ir := Some HLT\<rparr>)
   \<and> raised (run_iteration example_hlt_at_top) = Some IndexError"
proof -
  have w: "wf_cpu example_hlt_at_top" and p: "pc example_hlt_at_top = 255" by code_simp+
  have g: "getitem (ram example_hlt_at_top) (pc example_hlt_at_top) = Some HLT" by code_simp
  from run_iteration_reads_both_operand_cells [of example_hlt_at_top] w p
  have b: "getitem (ram example_hlt_at_top) (pc example_hlt_at_top + 2) = None"
    and r: "run_iteration example_hlt_at_top =
       Inl (IndexError, example_hlt_at_top
              \<lparr>ir := getitem (ram example_hlt_at_top) (pc example_hlt_at_top)\<rparr>)"
    by blast+
  from r have "raised (run_iteration example_hlt_at_top) = Some IndexError" by simp
  with w p g b r show ?thesis by simp
qed

subsection \<open>C10: the values of the flags register\<close>

text \<open>
  C10: in every state reached from a fresh CPU by loading any program and running any
  number of iterations (the state an exception was raised in included), the flags
  register is 0, 1, 2 or 4. An iteration changes the flags register only when the opcode
  it fetched is CMP, and then to 1, 2 or 4.
\<close>

theorem flags_register_invariant:
  "fl (final_state (load_steps n program)) \<in> {0, 1, 2, 4} \<and>
   (fl (final_state (run_iteration st)) \<noteq> fl st \<longrightarrow>
      ir (final_state (run_iteration st)) = Some CMP \<and>
      fl (final_state (run_iteration st)) \<in> {1, 2, 4})"
proof
  show "fl (final_state (load_steps n program)) \<in> {0, 1, 2, 4}"
  proof (cases "load_lines program 0 CPU_init")
    case (Inl p)
    with load_lines_fl [of program 0 CPU_init] show ?thesis
      by (cases p) (simp add: load_steps_def CPU_init_def)
  next
    case (Inr p)
    obtain st' a where p: "p = (st', a)" by (cases p)
    with Inr load_lines_fl [of program 0 CPU_init] have "fl st' = 0"
      by (simp add: CPU_init_def)
    then have "fl st' \<in> {0, 1, 2, 4}" by simp
    from run_steps_fl [OF this, of n] Inr p show ?thesis by (simp add: load_steps_def)
  qed
next
  from run_iteration_fl [of st]
  show "fl (final_state (run_iteration st)) \<noteq> fl st \<longrightarrow>
      ir (final_state (run_iteration st)) = Some CMP \<and>
      fl (final_state (run_iteration st)) \<in> {1, 2, 4}" by blast
qed

theorem flags_register_invariant_witness:
  "fl (final_state (run_iteration (final_state (load_steps 2 example_cmp))))
     \<noteq> fl (final_state (load_steps 2 example_cmp))
   \<and> ir (final_state (run_iteration (final_state (load_steps 2 example_cmp)))) = Some CMP
   \<and> fl (final_state (run_iteration (final_state (load_steps 2 example_cmp)))) \<in> {1, 2, 4}
   \<and> fl (final_state (load_steps 3 example_cmp)) \<in> {0, 1, 2, 4}"
proof -
  have h: "fl (final_state (run_iteration (final_state (load_steps 2 example_cmp))))
     \<noteq> fl (final_state (load_steps 2 example_cmp))" by code_simp
  from flags_register_invariant [of 3 example_cmp "final_state (load_steps 2 example_cmp)"] h
  show ?thesis by blast
qed

end
